theory Spec2Isabelle
  imports Main "HOL-Library.Sublist"
begin

section \<open>Strings and the string helpers of the Go standard library\<close>

text \<open>
  A Go string is a sequence of bytes; \<^typ>\<open>string\<close> is a list of 8-bit characters.
  The line terminator is the byte 0x0A.
\<close>

definition nl :: char where
  "nl = CHR 0x0A"

text \<open>
  \<^verbatim>\<open>strings.HasPrefix(s, prefix)\<close>:
  \<^verbatim>\<open>len(s) >= len(prefix) && s[:len(prefix)] == prefix\<close>.
\<close>

definition HasPrefix :: "string \<Rightarrow> string \<Rightarrow> bool" where
  "HasPrefix s p = (length p \<le> length s \<and> take (length p) s = p)"

text \<open>
  \<^verbatim>\<open>strings.Split(s, "\n")\<close>: the pieces of \<open>s\<close> between the separators. A text
  with no separator gives one piece (the text itself, also when it is empty); a text that
  ends with the separator gives an empty last piece.
\<close>

fun Split :: "string \<Rightarrow> string list" where
  "Split [] = [[]]"
| "Split (c # cs) =
     (if c = nl then [] # Split cs
      else (case Split cs of
              [] \<Rightarrow> [[c]]
            | l # ls \<Rightarrow> (c # l) # ls))"

section \<open>Regular expressions\<close>

text \<open>
  The patterns of this program are sequences of single-character classes, each with a
  quantifier, behind a start anchor. \<open>\d\<close> is an ASCII digit and \<open>\s\<close> is one of
  tab, line feed, form feed, carriage return and space, as in Go's \<^verbatim>\<open>regexp\<close>.
\<close>

datatype cls = Lit char | Digit | Space

datatype quant = One | Opt | Star | Plus

record regexp =
  anchored :: bool
  items :: "(cls \<times> quant) list"

definition is_digit :: "char \<Rightarrow> bool" where
  "is_digit c = (c \<in> set ''0123456789'')"

definition is_space :: "char \<Rightarrow> bool" where
  "is_space c = (c \<in> {CHR 0x09, CHR 0x0A, CHR 0x0C, CHR 0x0D, CHR '' ''})"

fun cls_ok :: "cls \<Rightarrow> char \<Rightarrow> bool" where
  "cls_ok (Lit a) c = (c = a)"
| "cls_ok Digit c = is_digit c"
| "cls_ok Space c = is_space c"

text \<open>
  \<open>match_here its s\<close>: some prefix of \<open>s\<close> matches the items \<open>its\<close>. The pattern has
  no end anchor, so whatever follows the match is accepted.
\<close>

function match_here :: "(cls \<times> quant) list \<Rightarrow> string \<Rightarrow> bool" where
  "match_here [] s = True"
| "match_here ((k, One) # r) [] = False"
| "match_here ((k, One) # r) (c # cs) = (cls_ok k c \<and> match_here r cs)"
| "match_here ((k, Opt) # r) [] = match_here r []"
| "match_here ((k, Opt) # r) (c # cs) = ((cls_ok k c \<and> match_here r cs) \<or> match_here r (c # cs))"
| "match_here ((k, Star) # r) [] = match_here r []"
| "match_here ((k, Star) # r) (c # cs) =
     ((cls_ok k c \<and> match_here ((k, Star) # r) cs) \<or> match_here r (c # cs))"
| "match_here ((k, Plus) # r) [] = False"
| "match_here ((k, Plus) # r) (c # cs) = (cls_ok k c \<and> match_here ((k, Star) # r) cs)"
  by pat_completeness auto
termination
  by (relation "measures [\<lambda>(its, s). length s, \<lambda>(its, s). length its]") auto

text \<open>
  Go matches code points of the UTF-8 text. Every class of these patterns holds ASCII
  characters only, and no byte of a longer UTF-8 sequence (nor an invalid byte) is below
  0x80, so matching byte by byte accepts the same strings.
\<close>

text \<open>
  \<^verbatim>\<open>re.MatchString(s)\<close>: the pattern matches somewhere in \<open>s\<close>; with the start
  anchor \<open>^\<close> (and no multi-line flag) only at the beginning of \<open>s\<close>.
\<close>

fun match_anywhere :: "(cls \<times> quant) list \<Rightarrow> string \<Rightarrow> bool" where
  "match_anywhere its [] = match_here its []"
| "match_anywhere its (c # cs) = (match_here its (c # cs) \<or> match_anywhere its cs)"

definition MatchString :: "regexp \<Rightarrow> string \<Rightarrow> bool" where
  "MatchString re s = (if anchored re then match_here (items re) s else match_anywhere (items re) s)"

section \<open>The changelog filter\<close>

text \<open>\<^verbatim>\<open>regexp.MustCompile(`^# v\d\.\d+\.\d+`)\<close>\<close>

definition changelogVersionLineRegexp :: regexp where
  "changelogVersionLineRegexp =
     \<lparr>anchored = True,
      items = [(Lit CHR ''#'', One), (Lit CHR '' '', One), (Lit CHR ''v'', One),
               (Digit, One), (Lit CHR ''.'', One),
               (Digit, Plus), (Lit CHR ''.'', One),
               (Digit, Plus)]\<rparr>"

definition ignoredSectionPrefixes :: "string list" where
  "ignoredSectionPrefixes = [''## Dependencies'', ''## Downloads for'']"

text \<open>The local variables of \<^verbatim>\<open>keepOnlyChanges\<close> that live across loop iterations.\<close>

record state =
  hasMetTheFirstVersionHeading :: bool
  isInIgnoredSection :: bool
  result :: string

definition init :: state where
  "init = \<lparr>hasMetTheFirstVersionHeading = False, isInIgnoredSection = False, result = []\<rparr>"

text \<open>
  The inner loop over the ignored prefixes, which stops at the first prefix of the line:
  its value is the flag \<^verbatim>\<open>isIgnoredSectionHeader\<close>.
\<close>

fun isIgnoredSectionHeader :: "string list \<Rightarrow> string \<Rightarrow> bool" where
  "isIgnoredSectionHeader [] line = False"
| "isIgnoredSectionHeader (p # ps) line =
     (if HasPrefix line p then True else isIgnoredSectionHeader ps line)"

text \<open>One iteration of the loop over the lines. Each \<^verbatim>\<open>continue\<close> returns the state.\<close>

definition loop_body :: "state \<Rightarrow> string \<Rightarrow> state" where
  "loop_body st line =
     (if \<not> hasMetTheFirstVersionHeading st \<and> \<not> MatchString changelogVersionLineRegexp line
      then st
      else
        let st1 = st\<lparr>hasMetTheFirstVersionHeading := True\<rparr> in
        if isIgnoredSectionHeader ignoredSectionPrefixes line
        then st1\<lparr>isInIgnoredSection := True\<rparr>
        else
          let st2 = (if isInIgnoredSection st1 \<and> (HasPrefix line ''# '' \<or> HasPrefix line ''## '')
                     then st1\<lparr>isInIgnoredSection := False\<rparr> else st1) in
          if \<not> isInIgnoredSection st2
          then st2\<lparr>result := result st2 @ line @ [nl]\<rparr>
          else st2)"

fun loop :: "state \<Rightarrow> string list \<Rightarrow> state" where
  "loop st [] = st"
| "loop st (line # lines) = loop (loop_body st line) lines"

definition keepOnlyChanges :: "string \<Rightarrow> string" where
  "keepOnlyChanges changelog = result (loop init (Split changelog))"


subsection \<open>Auxiliary notions for the statements about the filter\<close>

text \<open>The text made of the given lines, each followed by the line terminator.\<close>

definition terminated :: "string list \<Rightarrow> string" where
  "terminated ls = concat (map (\<lambda>l. l @ [nl]) ls)"

text \<open>
  The lines that the loop writes to the builder, in order, when it runs on \<open>ls\<close> from the
  state \<open>st\<close>: an iteration writes its line exactly when it changes \<^const>\<open>result\<close>.
\<close>

fun emitted :: "state \<Rightarrow> string list \<Rightarrow> string list" where
  "emitted st [] = []"
| "emitted st (l # ls) =
     (if result (loop_body st l) = result st then [] else [l]) @ emitted (loop_body st l) ls"

text \<open>The two changelog scenarios of the specification, as texts.\<close>

definition nested_scenario :: string where
  "nested_scenario =
     ''# v1.0.0\<newline>## Dependencies\<newline>### foo\<newline>- bar\<newline>## Changes\<newline>ok''"

definition two_versions_scenario :: string where
  "two_versions_scenario =
     ''intro\<newline># v1.2.3\<newline>## Dependencies\<newline>bump foo\<newline>## Changes\<newline>fix bar\<newline># v1.2.2\<newline>fix baz''"

text \<open>
  The version-heading pattern as the specification words it,
  \<^verbatim>\<open>^#\s*v?\d+\.\d+\.\d+\<close>, for comparison with \<^const>\<open>changelogVersionLineRegexp\<close>.
\<close>

definition spec_version_pattern :: regexp where
  "spec_version_pattern =
     \<lparr>anchored = True,
      items = [(Lit CHR ''#'', One), (Space, Star), (Lit CHR ''v'', Opt),
               (Digit, Plus), (Lit CHR ''.'', One),
               (Digit, Plus), (Lit CHR ''.'', One),
               (Digit, Plus)]\<rparr>"

text \<open>
  \<^verbatim>\<open>^# v\d+\.\d+\.\d+\<close>: the specification's pattern with the marker, exactly one
  space and the letter \<open>v\<close> all mandatory.
\<close>

definition strict_version_pattern :: regexp where
  "strict_version_pattern =
     \<lparr>anchored = True,
      items = [(Lit CHR ''#'', One), (Lit CHR '' '', One), (Lit CHR ''v'', One),
               (Digit, Plus), (Lit CHR ''.'', One),
               (Digit, Plus), (Lit CHR ''.'', One),
               (Digit, Plus)]\<rparr>"

text \<open>\<^verbatim>\<open>^# v\d\d\<close>: a heading whose first version component has two digits or more.\<close>

definition long_major_pattern :: regexp where
  "long_major_pattern =
     \<lparr>anchored = True,
      items = [(Lit CHR ''#'', One), (Lit CHR '' '', One), (Lit CHR ''v'', One),
               (Digit, One), (Digit, One)]\<rparr>"

section \<open>The release-notes extractor\<close>

subsection \<open>Document trees and selections\<close>

text \<open>
  Modelled from the spec: the parsed document tree. The tree type and the selection
  operations \<^verbatim>\<open>Find\<close>, \<^verbatim>\<open>Parent\<close>, \<^verbatim>\<open>Remove\<close>, \<^verbatim>\<open>Each\<close> and
  \<^verbatim>\<open>Text\<close> that \<^verbatim>\<open>getGkeReleaseNotes\<close> calls belong to an HTML library outside the
  sources. A node is a text node, an element (tag, attributes, children in order) or another
  leaf (comment, doctype). The program holds nodes by pointer: the first component of each
  node is that identity, and a well-formed document has no identity twice.
\<close>

datatype node =
    TextNode nat string
  | ElementNode nat string "(string \<times> string) list" "node list"
  | OtherNode nat

text \<open>A document is the list of the children of its root, which is not an element.\<close>

type_synonym document = "node list"

fun node_id :: "node \<Rightarrow> nat" where
  "node_id (TextNode i s) = i"
| "node_id (ElementNode i t a cs) = i"
| "node_id (OtherNode i) = i"

fun children :: "node \<Rightarrow> node list" where
  "children (ElementNode i t a cs) = cs"
| "children n = []"

fun attrs :: "node \<Rightarrow> (string \<times> string) list" where
  "attrs (ElementNode i t a cs) = a"
| "attrs n = []"

fun is_element :: "node \<Rightarrow> bool" where
  "is_element (ElementNode i t a cs) = True"
| "is_element n = False"

text \<open>
  Modelled from the spec: document order. \<open>subtree n\<close> lists \<open>n\<close> and its descendants,
  and \<open>nodes f\<close> the nodes of a forest, a node before its children and siblings from
  first to last.
\<close>

fun subtree :: "node \<Rightarrow> node list" and nodes :: "node list \<Rightarrow> node list" where
  "subtree (TextNode i s) = [TextNode i s]"
| "subtree (ElementNode i t a cs) = ElementNode i t a cs # nodes cs"
| "subtree (OtherNode i) = [OtherNode i]"
| "nodes [] = []"
| "nodes (c # cs) = subtree c @ nodes cs"

definition well_formed :: "document \<Rightarrow> bool" where
  "well_formed doc = distinct (map node_id (nodes doc))"

subsection \<open>Selectors\<close>

text \<open>\<^verbatim>\<open>strings.HasSuffix(s, suffix)\<close>\<close>

definition HasSuffix :: "string \<Rightarrow> string \<Rightarrow> bool" where
  "HasSuffix s sfx = (length sfx \<le> length s \<and> drop (length s - length sfx) s = sfx)"

text \<open>
  Modelled from the spec: the selector \<^verbatim>\<open>[key$="sfx"]\<close> of an exclusion rule, an element
  with an attribute \<open>key\<close> whose value ends with the literal suffix.
\<close>

definition attr_suffix :: "string \<Rightarrow> string \<Rightarrow> node \<Rightarrow> bool" where
  "attr_suffix key sfx n = (is_element n \<and> list_ex (\<lambda>(k, v). k = key \<and> HasSuffix v sfx) (attrs n))"

text \<open>The words of a class attribute, which white space separates.\<close>

fun class_words :: "string \<Rightarrow> string list" where
  "class_words [] = [[]]"
| "class_words (c # cs) =
     (if is_space c then [] # class_words cs
      else (case class_words cs of
              [] \<Rightarrow> [[c]]
            | w # ws \<Rightarrow> (c # w) # ws))"

text \<open>
  Modelled from the spec: the release-block class selector \<^verbatim>\<open>.cls\<close>, an element
  whose \<open>class\<close> attribute has the word \<open>cls\<close>.
\<close>

definition has_class :: "string \<Rightarrow> node \<Rightarrow> bool" where
  "has_class cls n =
     (is_element n \<and> list_ex (\<lambda>(k, v). k = ''class'' \<and> cls \<in> set (class_words v)) (attrs n))"

subsection \<open>Selection operations\<close>

text \<open>
  Modelled from the spec: \<^verbatim>\<open>doc.Find(selector)\<close>, every node of the document that the
  selector matches, in document order.
\<close>

definition Find :: "(node \<Rightarrow> bool) \<Rightarrow> document \<Rightarrow> node list" where
  "Find sel doc = filter sel (nodes doc)"

text \<open>A selection holds each node once; the first occurrence stays.\<close>

fun unique_nodes :: "node list \<Rightarrow> node list" where
  "unique_nodes [] = []"
| "unique_nodes (n # ns) = n # filter (\<lambda>m. node_id m \<noteq> node_id n) (unique_nodes ns)"

text \<open>
  Modelled from the spec: \<^verbatim>\<open>Parent()\<close>, one structural level up. The parent of a node
  is the element that has it among its children; a child of the document root has no
  parent element, and a selection of such nodes has an empty parent selection.
\<close>

definition parent_of :: "document \<Rightarrow> node \<Rightarrow> node list" where
  "parent_of doc n = filter (\<lambda>p. node_id n \<in> set (map node_id (children p))) (nodes doc)"

definition Parent :: "document \<Rightarrow> node list \<Rightarrow> node list" where
  "Parent doc sel = unique_nodes (concat (map (parent_of doc) sel))"

text \<open>
  Modelled from the spec: \<^verbatim>\<open>Remove()\<close>, which deletes the subtree of every selected
  node from the tree. \<open>prune ids\<close> detaches from each child list the nodes whose identity
  is in \<open>ids\<close>.
\<close>

fun prune :: "nat list \<Rightarrow> node \<Rightarrow> node" and prune_forest :: "nat list \<Rightarrow> node list \<Rightarrow> node list" where
  "prune ids (TextNode i s) = TextNode i s"
| "prune ids (ElementNode i t a cs) = ElementNode i t a (prune_forest ids cs)"
| "prune ids (OtherNode i) = OtherNode i"
| "prune_forest ids [] = []"
| "prune_forest ids (c # cs) =
     (if node_id c \<in> set ids then prune_forest ids cs else prune ids c # prune_forest ids cs)"

definition Remove :: "node list \<Rightarrow> document \<Rightarrow> document" where
  "Remove sel doc = prune_forest (map node_id sel) doc"

text \<open>
  Modelled from the spec: \<^verbatim>\<open>Text()\<close>, the text content of a node: the data of the text
  nodes of its subtree, concatenated in document order.
\<close>

fun Text :: "node \<Rightarrow> string" and Text_forest :: "node list \<Rightarrow> string" where
  "Text (TextNode i s) = s"
| "Text (ElementNode i t a cs) = Text_forest cs"
| "Text (OtherNode i) = []"
| "Text_forest [] = []"
| "Text_forest (c # cs) = Text c @ Text_forest cs"

subsection \<open>The extraction\<close>

text \<open>
  One exclusion rule,
  \<^verbatim>\<open>doc.Find("[data-text$=\"...\"]").Parent().Parent().Remove()\<close>: \<open>excluded\<close> is the
  selection that is removed, \<open>exclude\<close> the document afterwards.
\<close>

definition excluded :: "string \<Rightarrow> document \<Rightarrow> node list" where
  "excluded sfx doc = Parent doc (Parent doc (Find (attr_suffix ''data-text'' sfx) doc))"

definition exclude :: "string \<Rightarrow> document \<Rightarrow> document" where
  "exclude sfx doc = Remove (excluded sfx doc) doc"

text \<open>The document after both exclusion rules, in the order of the source.\<close>

definition after_exclusions :: "document \<Rightarrow> document" where
  "after_exclusions doc = exclude ''Security updates'' (exclude ''Version updates'' doc)"

text \<open>
  The release blocks that \<^verbatim>\<open>doc.Find(".releases").Each\<close> visits, and the text that the
  callback writes to the builder: the text content of each, with no separator.
\<close>

definition release_blocks :: "document \<Rightarrow> node list" where
  "release_blocks doc = Find (has_class ''releases'') (after_exclusions doc)"

definition extractReleaseContent :: "document \<Rightarrow> string" where
  "extractReleaseContent doc = concat (map Text (release_blocks doc))"

text \<open>
  \<^verbatim>\<open>getGkeReleaseNotes\<close>: the fetch and the parse are the two places that return an
  error; \<open>fetched\<close> is the outcome of the fetch and \<open>parse\<close> the parser. After a
  successful parse the function returns the extracted text and a nil error.
\<close>

definition getGkeReleaseNotes :: "'e + string \<Rightarrow> (string \<Rightarrow> 'e + document) \<Rightarrow> 'e + string" where
  "getGkeReleaseNotes fetched parse =
     (case fetched of
        Inl err \<Rightarrow> Inl err
      | Inr out \<Rightarrow>
          (case parse out of
             Inl err \<Rightarrow> Inl err
           | Inr doc \<Rightarrow> Inr (extractReleaseContent doc)))"

text \<open>The data of a text node; any other node has none of its own.\<close>

fun node_text :: "node \<Rightarrow> string" where
  "node_text (TextNode i s) = s"
| "node_text n = []"

subsection \<open>Auxiliary notions for the statements about the extractor\<close>

text \<open>
  A node with fewer than two element ancestors: a child of the document root, or a child of
  such a child.
\<close>

definition fewer_than_two_ancestors :: "document \<Rightarrow> node \<Rightarrow> bool" where
  "fewer_than_two_ancestors doc a = (a \<in> set doc \<or> a \<in> set (concat (map children doc)))"

text \<open>The identities of the elements that have a child whose identity is in \<open>I\<close>.\<close>

definition parent_ids :: "document \<Rightarrow> nat set \<Rightarrow> nat set" where
  "parent_ids doc I = {node_id p | p i. p \<in> set (nodes doc) \<and> i \<in> I
                         \<and> i \<in> node_id ` set (children p)}"

subsection \<open>Example documents\<close>

text \<open>
  The scenario of the specification: two release blocks and one exclusion anchor (the
  heading with \<^verbatim>\<open>data-text="Version updates"\<close>) whose grandparent, the section, also
  holds the second release block.
\<close>

definition scenario_section :: node where
  "scenario_section =
     ElementNode 5 ''section'' []
       [ElementNode 6 ''div'' []
          [ElementNode 7 ''h2'' [(''data-text'', ''Version updates'')]
             [TextNode 8 ''Version updates'']],
        ElementNode 9 ''div'' [(''class'', ''releases'')]
          [TextNode 10 ''dropped notes'']]"

definition scenario_doc :: document where
  "scenario_doc =
     [ElementNode 1 ''html'' []
       [ElementNode 2 ''body'' []
         [ElementNode 3 ''div'' [(''class'', ''releases'')] [TextNode 4 ''kept notes''],
          scenario_section]]]"

text \<open>
  A document whose excluded section has the text content \<^verbatim>\<open>Version updates\<close>, which
  is also how the text of the remaining release block begins.
\<close>

definition overlap_section :: node where
  "overlap_section =
     ElementNode 5 ''section'' []
       [ElementNode 6 ''div'' []
          [ElementNode 7 ''h2'' [(''data-text'', ''Version updates'')]
             [TextNode 8 ''Version updates'']]]"

definition overlap_doc :: document where
  "overlap_doc =
     [ElementNode 1 ''html'' []
       [ElementNode 2 ''body'' []
         [ElementNode 3 ''div'' [(''class'', ''releases'')]
            [TextNode 4 ''Version updates are listed per channel.''],
          overlap_section]]]"

text \<open>
  A document whose only exclusion anchor is the \<^verbatim>\<open>body\<close> element, which has one
  ancestor, and which has no release block.
\<close>

definition shallow_doc :: document where
  "shallow_doc =
     [ElementNode 1 ''html'' []
       [ElementNode 2 ''body'' [(''data-text'', ''Version updates'')]
          [ElementNode 3 ''p'' [] [TextNode 4 ''no release blocks here'']]]]"

section \<open>Properties of the string helpers\<close>

lemmas eval_defs = nl_def keepOnlyChanges_def init_def loop_body_def Let_def MatchString_def
  changelogVersionLineRegexp_def ignoredSectionPrefixes_def HasPrefix_def is_digit_def
  nested_scenario_def two_versions_scenario_def

lemma HasPrefix_prefix: "HasPrefix s p = prefix p s"
  unfolding HasPrefix_def
  by (metis prefix_def append_eq_conv_conj prefix_length_le append_take_drop_id)

lemma Split_not_Nil: "Split s \<noteq> []"
  by (induction s) (auto split: list.splits)

lemma Split_no_nl: "l \<in> set (Split s) \<Longrightarrow> nl \<notin> set l"
  by (induction s arbitrary: l) (auto split: list.splits if_splits)

lemma Split_line_append: "nl \<notin> set l \<Longrightarrow> Split (l @ nl # r) = l # Split r"
  by (induction l) (auto split: list.splits)

lemma Split_snoc_nl: "Split (s @ [nl]) = Split s @ [[]]"
  by (induction s) (auto split: list.splits simp: Split_not_Nil)

lemma Split_terminated: "\<forall>l\<in>set ls. nl \<notin> set l \<Longrightarrow> Split (terminated ls) = ls @ [[]]"
  unfolding terminated_def
  by (induction ls) (auto simp: Split_line_append)

section \<open>Properties of the version-heading pattern\<close>

lemma match_here_Lit:
  "match_here ((Lit a, One) # r) l = (\<exists>s. l = a # s \<and> match_here r s)"
  by (cases l) auto

lemma match_here_Digit:
  "match_here ((Digit, One) # r) l = (\<exists>d s. l = d # s \<and> is_digit d \<and> match_here r s)"
  by (cases l) auto

lemma match_here_Digit_Plus:
  "match_here ((Digit, Plus) # r) l =
     (\<exists>d s. l = d # s \<and> is_digit d \<and> match_here ((Digit, Star) # r) s)"
  by (cases l) auto

lemma match_here_Digit_Star:
  "match_here ((Digit, Star) # r) l =
     ((\<exists>d s. l = d # s \<and> is_digit d \<and> match_here ((Digit, Star) # r) s) \<or> match_here r l)"
  by (cases l) auto

lemma version_prefix:
  "match_here ((Lit CHR ''#'', One) # (Lit CHR '' '', One) # (Lit CHR ''v'', One) # r) l =
     (\<exists>s. l = ''# v'' @ s \<and> match_here r s)"
  by (auto simp: match_here_Lit)

lemma single_digit_major:
  assumes "match_here ((Digit, Plus) # r) l" and "\<not> match_here [(Digit, One), (Digit, One)] l"
  shows "match_here ((Digit, One) # r) l"
proof -
  obtain d s where l: "l = d # s" "is_digit d" and st: "match_here ((Digit, Star) # r) s"
    using assms(1) unfolding match_here_Digit_Plus by blast
  have "\<not> (\<exists>e t. s = e # t \<and> is_digit e)"
    using assms(2) l by (auto simp: match_here_Digit)
  then have "match_here r s"
    using st match_here_Digit_Star[of r s] by blast
  then show ?thesis using l by (simp add: match_here_Digit)
qed

lemma any_digit_major:
  assumes "match_here ((Digit, One) # r) l"
  shows "match_here ((Digit, Plus) # r) l"
proof -
  obtain d s where l: "l = d # s" "is_digit d" and st: "match_here r s"
    using assms unfolding match_here_Digit by blast
  then show ?thesis
    using match_here_Digit_Plus[of r l] match_here_Digit_Star[of r s] by blast
qed

lemma version_line_start:
  "MatchString changelogVersionLineRegexp l \<Longrightarrow> \<exists>s. l = CHR ''#'' # CHR '' '' # s"
  by (auto simp: MatchString_def changelogVersionLineRegexp_def match_here_Lit)

lemma version_line_exits:
  "MatchString changelogVersionLineRegexp l \<Longrightarrow> HasPrefix l ''# ''"
  by (auto simp: HasPrefix_def dest: version_line_start)

lemma version_line_not_header:
  "MatchString changelogVersionLineRegexp l \<Longrightarrow> \<not> isIgnoredSectionHeader ignoredSectionPrefixes l"
  by (auto simp: HasPrefix_def ignoredSectionPrefixes_def dest!: version_line_start)

lemma empty_line_facts:
  "\<not> MatchString changelogVersionLineRegexp []"
  "\<not> isIgnoredSectionHeader ignoredSectionPrefixes []"
  "\<not> HasPrefix [] ''# ''" "\<not> HasPrefix [] ''## ''"
  by (simp_all add: MatchString_def changelogVersionLineRegexp_def ignoredSectionPrefixes_def
      HasPrefix_def)

text \<open>
  The code's pattern rejects a heading whose first version component has two digits,
  which the specification's pattern accepts.
\<close>

lemma long_major_rejected:
  "MatchString spec_version_pattern ''# v10.1.0''
   \<and> \<not> MatchString changelogVersionLineRegexp ''# v10.1.0''"
  by (simp add: MatchString_def spec_version_pattern_def changelogVersionLineRegexp_def
      is_digit_def is_space_def)

text \<open>
  C2, as stated: the predicate accepts a line exactly when the line matches
  \<^verbatim>\<open>^#\s*v?\d+\.\d+\.\d+\<close>. The line \<^verbatim>\<open># 1.2.3\<close> matches that pattern and
  the predicate of the code rejects it.
\<close>

theorem version_heading_pattern_counterexample:
  "MatchString spec_version_pattern ''# 1.2.3''
   \<and> \<not> MatchString changelogVersionLineRegexp ''# 1.2.3''"
  by (simp add: MatchString_def spec_version_pattern_def changelogVersionLineRegexp_def
      is_digit_def is_space_def)

text \<open>
  C2, amended: the version-heading predicate accepts only lines that match
  \<^verbatim>\<open>^# v\d+\.\d+\.\d+\<close> (the heading marker, exactly one space, a mandatory \<open>v\<close> and a
  three-component version token), and it accepts every such line whose first version
  component is a single digit.
\<close>

theorem version_heading_pattern_amended:
  "(MatchString changelogVersionLineRegexp line \<longrightarrow> MatchString strict_version_pattern line)
   \<and> (MatchString strict_version_pattern line \<and> \<not> MatchString long_major_pattern line
        \<longrightarrow> MatchString changelogVersionLineRegexp line)"
proof (intro conjI impI)
  assume "MatchString changelogVersionLineRegexp line"
  then obtain s where "line = ''# v'' @ s"
    and "match_here [(Digit, One), (Lit CHR ''.'', One), (Digit, Plus), (Lit CHR ''.'', One),
           (Digit, Plus)] s"
    unfolding MatchString_def changelogVersionLineRegexp_def regexp.simps if_True version_prefix
    by blast
  then show "MatchString strict_version_pattern line"
    unfolding MatchString_def strict_version_pattern_def regexp.simps if_True version_prefix
    using any_digit_major by blast
next
  assume a: "MatchString strict_version_pattern line \<and> \<not> MatchString long_major_pattern line"
  then obtain s where l: "line = ''# v'' @ s"
    and "match_here [(Digit, Plus), (Lit CHR ''.'', One), (Digit, Plus), (Lit CHR ''.'', One),
           (Digit, Plus)] s"
    unfolding MatchString_def strict_version_pattern_def regexp.simps if_True version_prefix
    by blast
  moreover have "\<not> match_here [(Digit, One), (Digit, One)] s"
    using a l
    unfolding MatchString_def long_major_pattern_def regexp.simps if_True version_prefix
    by blast
  ultimately show "MatchString changelogVersionLineRegexp line"
    unfolding MatchString_def changelogVersionLineRegexp_def regexp.simps if_True version_prefix
    using single_digit_major by blast
qed

theorem version_heading_pattern_amended_witness:
  "MatchString changelogVersionLineRegexp ''# v1.33.0''
   \<and> MatchString strict_version_pattern ''# v1.33.0''
   \<and> \<not> MatchString long_major_pattern ''# v1.33.0''"
  using version_heading_pattern_amended[of "''# v1.33.0''"]
  by (simp add: MatchString_def changelogVersionLineRegexp_def strict_version_pattern_def
      long_major_pattern_def is_digit_def)

section \<open>Properties of the loop\<close>

lemma loop_append: "loop st (xs @ ys) = loop (loop st xs) ys"
  by (induction xs arbitrary: st) auto

lemma isIgnoredSectionHeader_iff: "isIgnoredSectionHeader ps l = (\<exists>p\<in>set ps. HasPrefix l p)"
  by (induction ps) auto

lemma loop_body_result:
  "result (loop_body st l) = result st \<or> result (loop_body st l) = result st @ l @ [nl]"
  by (auto simp: loop_body_def Let_def)

lemma loop_result_emitted: "result (loop st ls) = result st @ terminated (emitted st ls)"
proof (induction ls arbitrary: st)
  case Nil
  then show ?case by (simp add: terminated_def)
next
  case (Cons l ls)
  show ?case using loop_body_result[of st l] by (auto simp: Cons terminated_def)
qed

lemma subseq_emitted: "subseq (emitted st ls) ls"
  by (induction ls arbitrary: st) auto

lemma emitted_in_input: "k \<in> set (emitted st ls) \<Longrightarrow> k \<in> set ls"
  using subseq_emitted[of st ls]
  by (meson subseq_order.dual_order.trans subseq_singleton_left)

lemma emitted_not_header:
  "k \<in> set (emitted st ls) \<Longrightarrow> \<not> isIgnoredSectionHeader ignoredSectionPrefixes k"
proof (induction ls arbitrary: st)
  case Nil
  then show ?case by simp
next
  case (Cons l ls)
  show ?case
  proof (cases "k \<in> set (emitted (loop_body st l) ls)")
    case True
    then show ?thesis using Cons.IH by blast
  next
    case False
    with Cons.prems have "k = l" and "result (loop_body st l) \<noteq> result st"
      by (auto split: if_splits)
    then show ?thesis by (auto simp: loop_body_def Let_def split: if_splits)
  qed
qed

text \<open>Before the first version heading nothing changes.\<close>

lemma seeking_stays:
  "\<not> hasMetTheFirstVersionHeading st \<Longrightarrow> \<forall>l\<in>set ls. \<not> MatchString changelogVersionLineRegexp l
   \<Longrightarrow> loop st ls = st"
  by (induction ls arbitrary: st) (auto simp: loop_body_def)

text \<open>The first version heading is written, whatever the ignore flag was.\<close>

lemma first_version_line:
  assumes a: "\<not> hasMetTheFirstVersionHeading st"
    and m: "MatchString changelogVersionLineRegexp l"
  shows "loop_body st l = st\<lparr>hasMetTheFirstVersionHeading := True, isInIgnoredSection := False,
                              result := result st @ l @ [nl]\<rparr>"
proof -
  have x: "HasPrefix l ''# ''" by (rule version_line_exits[OF m])
  have h: "\<not> isIgnoredSectionHeader ignoredSectionPrefixes l"
    by (rule version_line_not_header[OF m])
  show ?thesis using a m x h
    by (cases st) (simp add: loop_body_def Let_def)
qed

text \<open>Outside an ignored subsection every line that is not an ignored header is written.\<close>

lemma emitting_all:
  "hasMetTheFirstVersionHeading st \<Longrightarrow> \<not> isInIgnoredSection st \<Longrightarrow>
   \<forall>k\<in>set ks. \<not> isIgnoredSectionHeader ignoredSectionPrefixes k \<Longrightarrow>
   loop st ks = st\<lparr>result := result st @ terminated ks\<rparr>"
proof (induction ks arbitrary: st)
  case Nil
  then show ?case by (simp add: terminated_def)
next
  case (Cons k ks)
  have b: "loop_body st k = st\<lparr>result := result st @ k @ [nl]\<rparr>"
    using Cons.prems by (simp add: loop_body_def Let_def)
  show ?case using Cons.prems by (simp add: b Cons.IH terminated_def)
qed

text \<open>Inside an ignored subsection lines without a top-level heading prefix change nothing.\<close>

lemma ignoring_stays:
  "hasMetTheFirstVersionHeading st \<Longrightarrow> isInIgnoredSection st \<Longrightarrow>
   \<forall>m\<in>set mid. \<not> HasPrefix m ''# '' \<and> \<not> HasPrefix m ''## '' \<Longrightarrow>
   loop st mid = st"
proof (induction mid arbitrary: st)
  case Nil
  then show ?case by simp
next
  case (Cons m mid)
  have b: "loop_body st m = st"
    using Cons.prems by (simp add: loop_body_def Let_def)
  show ?case using Cons.prems by (simp add: b Cons.IH)
qed

lemma emitted_first:
  "\<not> hasMetTheFirstVersionHeading st \<Longrightarrow> emitted st ls = k # ks \<Longrightarrow>
   MatchString changelogVersionLineRegexp k"
proof (induction ls arbitrary: st)
  case Nil
  then show ?case by simp
next
  case (Cons l ls)
  show ?case
  proof (cases "MatchString changelogVersionLineRegexp l")
    case True
    then show ?thesis using Cons.prems by (simp add: first_version_line)
  next
    case False
    then have "loop_body st l = st" using Cons.prems(1) by (simp add: loop_body_def)
    then show ?thesis using Cons by simp
  qed
qed

lemma keepOnlyChanges_terminated:
  "keepOnlyChanges t = terminated (emitted init (Split t))"
  by (simp add: keepOnlyChanges_def loop_result_emitted init_def)

lemma Split_keepOnlyChanges:
  "Split (keepOnlyChanges t) = emitted init (Split t) @ [[]]"
  unfolding keepOnlyChanges_terminated
  by (rule Split_terminated) (blast dest: emitted_in_input Split_no_nl)

section \<open>The claims about the changelog filter\<close>

text \<open>
  C1: a line that starts with an ignored-subsection prefix is not written, and neither is any
  line after it (a deeper heading such as \<^verbatim>\<open>### foo\<close> or an ordinary line) as long as
  no line starts with \<^verbatim>\<open># \<close> or \<^verbatim>\<open>## \<close>; once the first version heading has
  been met, the filter is then still inside the ignored subsection. A line with one of these
  two heading prefixes that arrives inside an ignored subsection is treated in the same
  iteration: if it starts with an ignored prefix it is dropped and the filter stays in the
  ignored subsection (that check comes first), otherwise the filter leaves the ignored
  subsection and writes the line. The two scenarios of the specification give the stated
  output lines.
\<close>

theorem ignored_subsection_until_heading:
  "(isIgnoredSectionHeader ignoredSectionPrefixes h
      \<and> (\<forall>m\<in>set mid. \<not> HasPrefix m ''# '' \<and> \<not> HasPrefix m ''## '')
     \<longrightarrow> result (loop st (h # mid)) = result st
         \<and> (hasMetTheFirstVersionHeading st \<longrightarrow> isInIgnoredSection (loop st (h # mid))))
   \<and> (hasMetTheFirstVersionHeading st \<and> isInIgnoredSection st
        \<and> (HasPrefix e ''# '' \<or> HasPrefix e ''## '')
     \<longrightarrow> (if isIgnoredSectionHeader ignoredSectionPrefixes e
          then result (loop_body st e) = result st \<and> isInIgnoredSection (loop_body st e)
          else result (loop_body st e) = result st @ e @ [nl]
               \<and> \<not> isInIgnoredSection (loop_body st e)))
   \<and> Split nested_scenario
       = [''# v1.0.0'', ''## Dependencies'', ''### foo'', ''- bar'', ''## Changes'', ''ok'']
   \<and> keepOnlyChanges nested_scenario
       = concat (map (\<lambda>l. l @ [nl]) [''# v1.0.0'', ''## Changes'', ''ok''])
   \<and> Split two_versions_scenario
       = [''intro'', ''# v1.2.3'', ''## Dependencies'', ''bump foo'', ''## Changes'', ''fix bar'',
          ''# v1.2.2'', ''fix baz'']
   \<and> keepOnlyChanges two_versions_scenario
       = concat (map (\<lambda>l. l @ [nl])
           [''# v1.2.3'', ''## Changes'', ''fix bar'', ''# v1.2.2'', ''fix baz''])"
proof (intro conjI impI)
  assume a: "isIgnoredSectionHeader ignoredSectionPrefixes h
      \<and> (\<forall>m\<in>set mid. \<not> HasPrefix m ''# '' \<and> \<not> HasPrefix m ''## '')"
  have met: "loop st (h # mid) = st\<lparr>hasMetTheFirstVersionHeading := True, isInIgnoredSection := True\<rparr>"
    if "hasMetTheFirstVersionHeading st"
  proof -
    have b: "loop_body st h = st\<lparr>hasMetTheFirstVersionHeading := True, isInIgnoredSection := True\<rparr>"
      using a that by (simp add: loop_body_def)
    show ?thesis using a by (simp add: b ignoring_stays)
  qed
  show "result (loop st (h # mid)) = result st"
  proof (cases "hasMetTheFirstVersionHeading st")
    case True
    then show ?thesis by (simp only: met) simp
  next
    case False
    have "\<forall>l\<in>set (h # mid). \<not> MatchString changelogVersionLineRegexp l"
      using a version_line_not_header version_line_exits by auto
    then show ?thesis using False seeking_stays by metis
  qed
  show "isInIgnoredSection (loop st (h # mid))" if "hasMetTheFirstVersionHeading st"
    using that by (simp only: met) simp
next
  assume "hasMetTheFirstVersionHeading st \<and> isInIgnoredSection st
        \<and> (HasPrefix e ''# '' \<or> HasPrefix e ''## '')"
  then show "if isIgnoredSectionHeader ignoredSectionPrefixes e
          then result (loop_body st e) = result st \<and> isInIgnoredSection (loop_body st e)
          else result (loop_body st e) = result st @ e @ [nl]
               \<and> \<not> isInIgnoredSection (loop_body st e)"
    by (simp add: loop_body_def Let_def)
next
  show "Split nested_scenario
       = [''# v1.0.0'', ''## Dependencies'', ''### foo'', ''- bar'', ''## Changes'', ''ok'']"
    by (simp add: nl_def nested_scenario_def)
  show "Split two_versions_scenario
       = [''intro'', ''# v1.2.3'', ''## Dependencies'', ''bump foo'', ''## Changes'', ''fix bar'',
          ''# v1.2.2'', ''fix baz'']"
    by (simp add: nl_def two_versions_scenario_def)
  show "keepOnlyChanges nested_scenario
       = concat (map (\<lambda>l. l @ [nl]) [''# v1.0.0'', ''## Changes'', ''ok''])"
    by (simp add: eval_defs)
  show "keepOnlyChanges two_versions_scenario
       = concat (map (\<lambda>l. l @ [nl])
           [''# v1.2.3'', ''## Changes'', ''fix bar'', ''# v1.2.2'', ''fix baz''])"
    by (simp add: eval_defs)
qed

theorem ignored_subsection_until_heading_witness:
  "isIgnoredSectionHeader ignoredSectionPrefixes ''## Dependencies''
   \<and> \<not> HasPrefix ''### foo'' ''# '' \<and> \<not> HasPrefix ''### foo'' ''## ''
   \<and> \<not> HasPrefix ''- bar'' ''# '' \<and> \<not> HasPrefix ''- bar'' ''## ''
   \<and> HasPrefix ''## Changes'' ''## ''
   \<and> \<not> isIgnoredSectionHeader ignoredSectionPrefixes ''## Changes''
   \<and> result (loop \<lparr>hasMetTheFirstVersionHeading = True, isInIgnoredSection = False,
                     result = ''# v1.0.0\<newline>''\<rparr>
                [''## Dependencies'', ''### foo'', ''- bar'']) = ''# v1.0.0\<newline>''
   \<and> isInIgnoredSection (loop \<lparr>hasMetTheFirstVersionHeading = True, isInIgnoredSection = False,
                     result = ''# v1.0.0\<newline>''\<rparr>
                [''## Dependencies'', ''### foo'', ''- bar''])
   \<and> result (loop_body \<lparr>hasMetTheFirstVersionHeading = True, isInIgnoredSection = True,
                     result = ''# v1.0.0\<newline>''\<rparr> ''## Changes'')
       = ''# v1.0.0\<newline>## Changes\<newline>''"
proof -
  have h: "isIgnoredSectionHeader ignoredSectionPrefixes ''## Dependencies''"
    by (simp add: ignoredSectionPrefixes_def HasPrefix_def)
  have m: "\<forall>m\<in>set [''### foo'', ''- bar'']. \<not> HasPrefix m ''# '' \<and> \<not> HasPrefix m ''## ''"
    by (simp add: HasPrefix_def)
  have e: "HasPrefix ''## Changes'' ''## ''" by (simp add: HasPrefix_def)
  have n: "\<not> isIgnoredSectionHeader ignoredSectionPrefixes ''## Changes''"
    by (simp add: ignoredSectionPrefixes_def HasPrefix_def)
  show ?thesis
    using h m e n
      ignored_subsection_until_heading[of "''## Dependencies''" "[''### foo'', ''- bar'']"
            "\<lparr>hasMetTheFirstVersionHeading = True, isInIgnoredSection = False,
                     result = ''# v1.0.0\<newline>''\<rparr>" "''## Changes''"]
      ignored_subsection_until_heading[of "''## Dependencies''" "[''### foo'', ''- bar'']"
            "\<lparr>hasMetTheFirstVersionHeading = True, isInIgnoredSection = True,
                     result = ''# v1.0.0\<newline>''\<rparr>" "''## Changes''"]
    by (simp add: nl_def)
qed

text \<open>
  C3, as stated: filtering the output again gives the same output. For the text
  \<^verbatim>\<open># v1.0.0\<close> the output holds the version heading, and the second pass adds a
  terminator.
\<close>

theorem refilter_not_idempotent_counterexample:
  "''# v1.0.0'' \<in> set (Split (keepOnlyChanges ''# v1.0.0''))
   \<and> MatchString changelogVersionLineRegexp ''# v1.0.0''
   \<and> keepOnlyChanges ''# v1.0.0'' = ''# v1.0.0\<newline>''
   \<and> keepOnlyChanges (keepOnlyChanges ''# v1.0.0'') = ''# v1.0.0\<newline>\<newline>''
   \<and> keepOnlyChanges (keepOnlyChanges ''# v1.0.0'') \<noteq> keepOnlyChanges ''# v1.0.0''"
  by (simp add: eval_defs)

text \<open>
  C3, amended: when the filtered output holds a version-heading line, filtering that output
  again gives the same output followed by one more line terminator (every line of the output
  is kept, and the empty piece after its final terminator is written as an empty line).
\<close>

theorem refilter_appends_terminator:
  assumes "\<exists>l\<in>set (Split (keepOnlyChanges t)). MatchString changelogVersionLineRegexp l"
  shows "keepOnlyChanges (keepOnlyChanges t) = keepOnlyChanges t @ [nl]"
proof -
  obtain k ks where e: "emitted init (Split t) = k # ks"
    using assms empty_line_facts(1) by (cases "emitted init (Split t)") (auto simp: Split_keepOnlyChanges)
  have m: "MatchString changelogVersionLineRegexp k"
    using emitted_first[OF _ e] by (simp add: init_def)
  have nh: "\<forall>x\<in>set (ks @ [[]]). \<not> isIgnoredSectionHeader ignoredSectionPrefixes x"
    using emitted_not_header[of _ init "Split t"] empty_line_facts(2) e by auto
  have "loop init (Split (keepOnlyChanges t)) = loop (loop_body init k) (ks @ [[]])"
    by (simp add: Split_keepOnlyChanges e)
  also have "loop_body init k = \<lparr>hasMetTheFirstVersionHeading = True, isInIgnoredSection = False,
      result = k @ [nl]\<rparr>"
    using m by (simp add: first_version_line init_def)
  finally have "result (loop init (Split (keepOnlyChanges t))) = (k @ [nl]) @ terminated (ks @ [[]])"
    using nh by (simp add: emitting_all)
  moreover have "keepOnlyChanges (keepOnlyChanges t) = result (loop init (Split (keepOnlyChanges t)))"
    by (simp add: keepOnlyChanges_def)
  moreover have "keepOnlyChanges t = terminated (k # ks)"
    by (simp add: keepOnlyChanges_terminated e)
  ultimately show ?thesis
    by (simp add: terminated_def)
qed

theorem refilter_appends_terminator_witness:
  "''# v1.2.3'' \<in> set (Split (keepOnlyChanges two_versions_scenario))
   \<and> MatchString changelogVersionLineRegexp ''# v1.2.3''
   \<and> keepOnlyChanges (keepOnlyChanges two_versions_scenario)
       = ''# v1.2.3\<newline>## Changes\<newline>fix bar\<newline># v1.2.2\<newline>fix baz\<newline>\<newline>''"
proof -
  have k: "keepOnlyChanges two_versions_scenario
       = ''# v1.2.3\<newline>## Changes\<newline>fix bar\<newline># v1.2.2\<newline>fix baz\<newline>''"
    by (simp add: eval_defs)
  have s: "''# v1.2.3'' \<in> set (Split (keepOnlyChanges two_versions_scenario))"
    unfolding k by (simp add: nl_def)
  have m: "MatchString changelogVersionLineRegexp ''# v1.2.3''"
    by (simp add: eval_defs)
  from s m have h: "\<exists>l\<in>set (Split (keepOnlyChanges two_versions_scenario)).
        MatchString changelogVersionLineRegexp l"
    by blast
  show ?thesis using s m refilter_appends_terminator[OF h] by (simp add: k nl_def)
qed

text \<open>
  C4: no line of the output of the filter starts with an ignored-subsection prefix, and an
  iteration on a line that starts with such a prefix writes nothing, in every state.
\<close>

theorem no_ignored_prefix_in_output:
  "(\<forall>l\<in>set (Split (keepOnlyChanges t)). \<forall>p\<in>set ignoredSectionPrefixes. \<not> HasPrefix l p)
   \<and> (\<forall>p\<in>set ignoredSectionPrefixes. HasPrefix line p \<longrightarrow> result (loop_body st line) = result st)"
proof
  show "\<forall>l\<in>set (Split (keepOnlyChanges t)). \<forall>p\<in>set ignoredSectionPrefixes. \<not> HasPrefix l p"
    using emitted_not_header[of _ init "Split t"] empty_line_facts(2)
    by (auto simp: Split_keepOnlyChanges isIgnoredSectionHeader_iff)
  show "\<forall>p\<in>set ignoredSectionPrefixes. HasPrefix line p \<longrightarrow> result (loop_body st line) = result st"
    by (auto simp: loop_body_def Let_def isIgnoredSectionHeader_iff)
qed

theorem no_ignored_prefix_in_output_witness:
  "''## Changes'' \<in> set (Split (keepOnlyChanges nested_scenario))
   \<and> ''## Dependencies'' \<in> set ignoredSectionPrefixes
   \<and> \<not> HasPrefix ''## Changes'' ''## Dependencies''
   \<and> HasPrefix ''## Dependencies (tail)'' ''## Dependencies''
   \<and> result (loop_body \<lparr>hasMetTheFirstVersionHeading = True, isInIgnoredSection = False,
                            result = ''# v1.0.0\<newline>''\<rparr> ''## Dependencies (tail)'')
       = ''# v1.0.0\<newline>''"
proof -
  have 1: "''## Changes'' \<in> set (Split (keepOnlyChanges nested_scenario))"
    by (simp add: eval_defs)
  have 2: "''## Dependencies'' \<in> set ignoredSectionPrefixes"
    by (simp add: ignoredSectionPrefixes_def)
  have 3: "HasPrefix ''## Dependencies (tail)'' ''## Dependencies''"
    by (simp add: HasPrefix_def)
  note c = no_ignored_prefix_in_output[of "nested_scenario"
      "''## Dependencies (tail)''"
      "\<lparr>hasMetTheFirstVersionHeading = True, isInIgnoredSection = False,
                            result = ''# v1.0.0\<newline>''\<rparr>"]
  have a: "\<not> HasPrefix ''## Changes'' ''## Dependencies''"
    using c 1 2 by blast
  have b: "result (loop_body \<lparr>hasMetTheFirstVersionHeading = True, isInIgnoredSection = False,
                            result = ''# v1.0.0\<newline>''\<rparr> ''## Dependencies (tail)'')
       = ''# v1.0.0\<newline>''"
    using c 2 3 by auto
  show ?thesis using 1 2 3 a b by blast
qed

text \<open>
  C5: when the lines of the text are \<open>pre\<close>, then a line \<open>v\<close> that matches the
  version-heading pattern, then \<open>post\<close>, and no line of \<open>pre\<close> matches, nothing has been
  written after the lines of \<open>pre\<close>, and the output starts with \<open>v\<close> and its terminator:
  the first line of the output is \<open>v\<close>.
\<close>

theorem first_emitted_is_first_version_heading:
  assumes "Split t = pre @ v # post"
    and "\<forall>p\<in>set pre. \<not> MatchString changelogVersionLineRegexp p"
    and "MatchString changelogVersionLineRegexp v"
  shows "result (loop init pre) = []
       \<and> (\<exists>rest. keepOnlyChanges t = v @ nl # rest)
       \<and> hd (Split (keepOnlyChanges t)) = v"
proof -
  have p: "loop init pre = init" using assms(2) by (simp add: seeking_stays init_def)
  have "loop init (Split t) = loop (loop_body init v) post"
    by (simp add: assms(1) loop_append p)
  then have r: "keepOnlyChanges t = (v @ [nl]) @ terminated (emitted (loop_body init v) post)"
    using assms(3) by (simp add: keepOnlyChanges_def loop_result_emitted first_version_line init_def)
  have "nl \<notin> set v" using Split_no_nl[of v t] assms(1) by simp
  then have "hd (Split (keepOnlyChanges t)) = v"
    by (simp add: r Split_line_append)
  then show ?thesis using p r by (simp add: init_def)
qed

theorem first_emitted_is_first_version_heading_witness:
  "Split ''intro\<newline># v1.2.3\<newline>fix bar'' = [''intro''] @ ''# v1.2.3'' # [''fix bar'']
   \<and> \<not> MatchString changelogVersionLineRegexp ''intro''
   \<and> MatchString changelogVersionLineRegexp ''# v1.2.3''
   \<and> result (loop init [''intro'']) = []
   \<and> (\<exists>rest. keepOnlyChanges ''intro\<newline># v1.2.3\<newline>fix bar'' = ''# v1.2.3'' @ nl # rest)
   \<and> hd (Split (keepOnlyChanges ''intro\<newline># v1.2.3\<newline>fix bar'')) = ''# v1.2.3''"
proof -
  have 1: "Split ''intro\<newline># v1.2.3\<newline>fix bar'' = [''intro''] @ ''# v1.2.3'' # [''fix bar'']"
    by (simp add: nl_def)
  have 2: "\<forall>p\<in>set [''intro'']. \<not> MatchString changelogVersionLineRegexp p"
    by (simp add: eval_defs)
  have 3: "MatchString changelogVersionLineRegexp ''# v1.2.3''"
    by (simp add: eval_defs)
  show ?thesis using first_emitted_is_first_version_heading[OF 1 2 3] 1 2 3 by simp
qed

text \<open>
  C7: the output is made of a subsequence of the input lines, in their order, each one
  unchanged and followed by the line terminator.
\<close>

theorem output_subsequence_of_input:
  "\<exists>ks. subseq ks (Split t) \<and> keepOnlyChanges t = concat (map (\<lambda>l. l @ [nl]) ks)"
proof (intro exI conjI)
  show "subseq (emitted init (Split t)) (Split t)" by (rule subseq_emitted)
  show "keepOnlyChanges t = concat (map (\<lambda>l. l @ [nl]) (emitted init (Split t)))"
    by (simp add: keepOnlyChanges_def loop_result_emitted init_def terminated_def)
qed

text \<open>
  C8: when no line of the text matches the version-heading pattern the output is empty. The
  filter has no error result: it is a function from texts to texts, defined by recursion
  over the finite list of lines.
\<close>

theorem no_version_heading_gives_empty:
  "\<forall>l\<in>set (Split t). \<not> MatchString changelogVersionLineRegexp l \<Longrightarrow> keepOnlyChanges t = []"
  by (simp add: keepOnlyChanges_def seeking_stays init_def)

theorem no_version_heading_gives_empty_witness:
  "\<not> MatchString changelogVersionLineRegexp ''intro''
   \<and> \<not> MatchString changelogVersionLineRegexp ''## Dependencies''
   \<and> \<not> MatchString changelogVersionLineRegexp ''# 1.2.3''
   \<and> Split ''intro\<newline>## Dependencies\<newline># 1.2.3'' = [''intro'', ''## Dependencies'', ''# 1.2.3'']
   \<and> keepOnlyChanges ''intro\<newline>## Dependencies\<newline># 1.2.3'' = []"
proof -
  have 1: "Split ''intro\<newline>## Dependencies\<newline># 1.2.3'' = [''intro'', ''## Dependencies'', ''# 1.2.3'']"
    by (simp add: nl_def)
  have 2: "\<not> MatchString changelogVersionLineRegexp ''intro''"
    "\<not> MatchString changelogVersionLineRegexp ''## Dependencies''"
    "\<not> MatchString changelogVersionLineRegexp ''# 1.2.3''"
    by (simp_all add: eval_defs)
  have 3: "\<forall>l\<in>set (Split ''intro\<newline>## Dependencies\<newline># 1.2.3''). \<not> MatchString changelogVersionLineRegexp l"
    unfolding 1 using 2 by simp
  show ?thesis using no_version_heading_gives_empty[OF 3] 1 2 by simp
qed

text \<open>
  C10: the output is empty or ends with the line terminator, being a sequence of lines each
  followed by the terminator; and when the filter ends a text in the emitting state (first
  version heading met, not in an ignored subsection), the same text with a terminator appended
  gives the same output with one more terminator appended.
\<close>

theorem output_lines_terminated:
  "(keepOnlyChanges t = [] \<or> last (keepOnlyChanges t) = nl)
   \<and> (\<exists>ks. keepOnlyChanges t = concat (map (\<lambda>l. l @ [nl]) ks))
   \<and> (hasMetTheFirstVersionHeading (loop init (Split t)) \<and> \<not> isInIgnoredSection (loop init (Split t))
        \<longrightarrow> keepOnlyChanges (t @ [nl]) = keepOnlyChanges t @ [nl])"
proof (intro conjI impI)
  show "keepOnlyChanges t = [] \<or> last (keepOnlyChanges t) = nl"
    unfolding keepOnlyChanges_terminated terminated_def
    by (cases "emitted init (Split t)" rule: rev_cases) auto
  show "\<exists>ks. keepOnlyChanges t = concat (map (\<lambda>l. l @ [nl]) ks)"
    unfolding keepOnlyChanges_terminated terminated_def by blast
  assume "hasMetTheFirstVersionHeading (loop init (Split t)) \<and> \<not> isInIgnoredSection (loop init (Split t))"
  then show "keepOnlyChanges (t @ [nl]) = keepOnlyChanges t @ [nl]"
    by (simp add: keepOnlyChanges_def Split_snoc_nl loop_append loop_body_def Let_def empty_line_facts)
qed

theorem output_lines_terminated_witness:
  "hasMetTheFirstVersionHeading (loop init (Split ''# v1.0.0\<newline>ok''))
   \<and> \<not> isInIgnoredSection (loop init (Split ''# v1.0.0\<newline>ok''))
   \<and> keepOnlyChanges ''# v1.0.0\<newline>ok'' = ''# v1.0.0\<newline>ok\<newline>''
   \<and> keepOnlyChanges (''# v1.0.0\<newline>ok'' @ [nl]) = ''# v1.0.0\<newline>ok\<newline>\<newline>''"
proof -
  have 1: "hasMetTheFirstVersionHeading (loop init (Split ''# v1.0.0\<newline>ok''))
   \<and> \<not> isInIgnoredSection (loop init (Split ''# v1.0.0\<newline>ok''))"
    by (simp add: eval_defs)
  have 2: "keepOnlyChanges ''# v1.0.0\<newline>ok'' = ''# v1.0.0\<newline>ok\<newline>''"
    by (simp add: eval_defs)
  have "keepOnlyChanges (''# v1.0.0\<newline>ok'' @ [nl]) = keepOnlyChanges ''# v1.0.0\<newline>ok'' @ [nl]"
    using output_lines_terminated[of "''# v1.0.0\<newline>ok''"] 1 by blast
  then show ?thesis using 1 2 by (simp add: nl_def)
qed

section \<open>Properties of document trees and pruning\<close>

lemmas html_defs = extractReleaseContent_def release_blocks_def after_exclusions_def exclude_def
  excluded_def Remove_def Parent_def parent_of_def Find_def attr_suffix_def has_class_def
  HasSuffix_def is_space_def well_formed_def

lemma nodes_append: "nodes (xs @ ys) = nodes xs @ nodes ys"
  by (induction xs) auto

lemma subtree_Cons: "subtree n = n # nodes (children n)"
  by (cases n) auto

lemma self_in_subtree: "n \<in> set (subtree n)"
  by (simp add: subtree_Cons)

lemma top_in_nodes: "c \<in> set cs \<Longrightarrow> set (subtree c) \<subseteq> set (nodes cs)"
  by (induction cs) auto

lemma subtree_closed:
  "g \<in> set (subtree n) \<Longrightarrow> set (subtree g) \<subseteq> set (subtree n)"
  "g \<in> set (nodes cs) \<Longrightarrow> set (subtree g) \<subseteq> set (nodes cs)"
  by (induction n and cs arbitrary: g and g rule: subtree_nodes.induct) auto

lemma prune_id: "node_id (prune ids n) = node_id n"
  by (cases n) auto

lemma prune_ids_subset:
  "node_id ` set (subtree (prune ids n)) \<subseteq> node_id ` set (subtree n)"
  "node_id ` set (nodes (prune_forest ids cs)) \<subseteq> node_id ` set (nodes cs)"
  by (induction n and cs rule: subtree_nodes.induct) auto

lemma prune_disjoint:
  "distinct (map node_id (subtree n)) \<Longrightarrow> g \<in> set (nodes (children n)) \<Longrightarrow>
   node_id g \<in> set ids \<Longrightarrow>
   node_id ` set (subtree g) \<inter> node_id ` set (subtree (prune ids n)) = {}"
  "distinct (map node_id (nodes cs)) \<Longrightarrow> g \<in> set (nodes cs) \<Longrightarrow>
   node_id g \<in> set ids \<Longrightarrow>
   node_id ` set (subtree g) \<inter> node_id ` set (nodes (prune_forest ids cs)) = {}"
proof (induction n and cs arbitrary: g and g rule: subtree_nodes.induct)
  case (1 i s)
  then show ?case by simp
next
  case (2 i t a cs)
  have sub: "node_id ` set (subtree g) \<subseteq> node_id ` set (nodes cs)"
    using subtree_closed(2)[of g cs] "2.prems"(2) by auto
  have "i \<notin> node_id ` set (nodes cs)" using "2.prems"(1) by auto
  then have "i \<notin> node_id ` set (subtree g)" using sub by blast
  moreover have "node_id ` set (subtree g) \<inter> node_id ` set (nodes (prune_forest ids cs)) = {}"
    using "2.IH"[of g] "2.prems" by simp
  ultimately show ?case by auto
next
  case (3 i)
  then show ?case by simp
next
  case 4
  then show ?case by simp
next
  case (5 c cs)
  have d: "distinct (map node_id (subtree c))" "distinct (map node_id (nodes cs))"
    and disj: "node_id ` set (subtree c) \<inter> node_id ` set (nodes cs) = {}"
    using "5.prems"(1) by auto
  have pc: "node_id ` set (subtree (prune ids c)) \<subseteq> node_id ` set (subtree c)"
    and pcs: "node_id ` set (nodes (prune_forest ids cs)) \<subseteq> node_id ` set (nodes cs)"
    by (rule prune_ids_subset)+
  show ?case
  proof (cases "g \<in> set (subtree c)")
    case True
    then have sub: "node_id ` set (subtree g) \<subseteq> node_id ` set (subtree c)"
      using subtree_closed(1)[of g c] by auto
    then have rest: "node_id ` set (subtree g) \<inter> node_id ` set (nodes (prune_forest ids cs)) = {}"
      using disj pcs by blast
    show ?thesis
    proof (cases "node_id c \<in> set ids")
      case True
      then show ?thesis using rest by simp
    next
      case False
      then have "g \<noteq> c" using "5.prems"(3) by auto
      then have "g \<in> set (nodes (children c))"
        using \<open>g \<in> set (subtree c)\<close> by (simp add: subtree_Cons[of c])
      then have "node_id ` set (subtree g) \<inter> node_id ` set (subtree (prune ids c)) = {}"
        using "5.IH"(1)[of g] d(1) "5.prems"(3) by simp
      then show ?thesis using rest False by (auto simp: image_Un)
    qed
  next
    case False
    then have gin: "g \<in> set (nodes cs)" using "5.prems"(2) by simp
    then have sub: "node_id ` set (subtree g) \<subseteq> node_id ` set (nodes cs)"
      using subtree_closed(2)[of g cs] by auto
    then have "node_id ` set (subtree g) \<inter> node_id ` set (subtree (prune ids c)) = {}"
      using disj pc by blast
    moreover have "node_id ` set (subtree g) \<inter> node_id ` set (nodes (prune_forest ids cs)) = {}"
      using "5.IH"(2)[of g] d(2) gin "5.prems"(3) by simp
    ultimately show ?thesis by (auto simp: image_Un)
  qed
qed

lemma prune_distinct:
  "distinct (map node_id (subtree n)) \<Longrightarrow> distinct (map node_id (subtree (prune ids n)))"
  "distinct (map node_id (nodes cs)) \<Longrightarrow> distinct (map node_id (nodes (prune_forest ids cs)))"
proof (induction n and cs rule: subtree_nodes.induct)
  case (2 i t a cs)
  then show ?case using prune_ids_subset(2)[of ids cs] by auto
next
  case (5 c cs)
  have "node_id ` set (subtree c) \<inter> node_id ` set (nodes cs) = {}"
    using "5.prems" by auto
  then have "node_id ` set (subtree (prune ids c)) \<inter> node_id ` set (nodes (prune_forest ids cs)) = {}"
    using prune_ids_subset(1)[of ids c] prune_ids_subset(2)[of ids cs] by blast
  then show ?case using 5 by auto
qed auto

lemma set_unique_nodes: "set (unique_nodes ns) \<subseteq> set ns"
  by (induction ns) auto

lemma Parent_in_nodes: "g \<in> set (Parent doc sel) \<Longrightarrow> g \<in> set (nodes doc)"
  using set_unique_nodes[of "concat (map (parent_of doc) sel)"]
  by (auto simp: Parent_def parent_of_def)

lemma excluded_in_nodes: "g \<in> set (excluded sfx doc) \<Longrightarrow> g \<in> set (nodes doc)"
  unfolding excluded_def by (rule Parent_in_nodes)

lemma exclude_disjoint:
  assumes "well_formed doc" and "g \<in> set (excluded sfx doc)"
  shows "node_id ` set (subtree g) \<inter> node_id ` set (nodes (exclude sfx doc)) = {}"
  unfolding exclude_def Remove_def
  using assms prune_disjoint(2)[of doc g "map node_id (excluded sfx doc)"]
  by (simp add: well_formed_def excluded_in_nodes)

lemma exclude_well_formed: "well_formed doc \<Longrightarrow> well_formed (exclude sfx doc)"
  unfolding well_formed_def exclude_def Remove_def by (rule prune_distinct(2))

lemma exclude_ids_subset:
  "node_id ` set (nodes (exclude sfx doc)) \<subseteq> node_id ` set (nodes doc)"
  unfolding exclude_def Remove_def by (rule prune_ids_subset(2))

lemma Text_subtree:
  "Text n = concat (map node_text (subtree n))"
  "Text_forest cs = concat (map node_text (nodes cs))"
  by (induction n and cs rule: subtree_nodes.induct) auto

lemma forest_in_nodes: "set cs \<subseteq> set (nodes cs)"
  by (induction cs) (auto simp: subtree_Cons)

lemma nodes_split: "set (nodes cs) = set cs \<union> set (nodes (concat (map children cs)))"
  by (induction cs) (auto simp: subtree_Cons nodes_append)

lemma level1_subset: "set (nodes (concat (map children cs))) \<subseteq> set (nodes cs)"
  using nodes_split[of cs] by blast

lemma children_in_level1:
  assumes "p \<in> set (nodes cs)"
  shows "set (children p) \<subseteq> set (nodes (concat (map children cs)))"
proof (cases "p \<in> set cs")
  case True
  then have "set (children p) \<subseteq> set (concat (map children cs))" by auto
  then show ?thesis using forest_in_nodes[of "concat (map children cs)"] by blast
next
  case False
  then have "p \<in> set (nodes (concat (map children cs)))"
    using assms nodes_split[of cs] by blast
  then have "set (subtree p) \<subseteq> set (nodes (concat (map children cs)))"
    by (rule subtree_closed(2))
  moreover have "set (children p) \<subseteq> set (subtree p)"
    using forest_in_nodes[of "children p"] by (auto simp: subtree_Cons[of p])
  ultimately show ?thesis by blast
qed

lemma top_level_apart:
  "distinct (map node_id (nodes cs)) \<Longrightarrow>
   node_id ` set cs \<inter> node_id ` set (nodes (concat (map children cs))) = {}"
proof (induction cs)
  case Nil
  then show ?case by simp
next
  case (Cons c cs)
  define A where "A = node_id ` set (nodes (children c))"
  define B where "B = node_id ` set (nodes (concat (map children cs)))"
  define N where "N = node_id ` set (nodes cs)"
  define T where "T = node_id ` set cs"
  have d: "node_id c \<notin> A" "node_id c \<notin> N" "A \<inter> N = {}"
    and dcs: "distinct (map node_id (nodes cs))"
    using Cons.prems unfolding A_def N_def by (auto simp: subtree_Cons[of c])
  have l: "B \<subseteq> N"
    unfolding B_def N_def using level1_subset[of cs] by blast
  have t: "T \<subseteq> N"
    unfolding T_def N_def using forest_in_nodes[of cs] by blast
  have ih: "T \<inter> B = {}"
    unfolding T_def B_def using Cons.IH dcs by simp
  have "node_id ` set (c # cs) = insert (node_id c) T"
    unfolding T_def by simp
  moreover have "node_id ` set (nodes (concat (map children (c # cs)))) = A \<union> B"
    unfolding A_def B_def by (simp add: nodes_append image_Un)
  moreover have "insert (node_id c) T \<inter> (A \<union> B) = {}"
    using d l t ih by blast
  ultimately show ?case by simp
qed

lemma level1_distinct:
  "distinct (map node_id (nodes cs)) \<Longrightarrow>
   distinct (map node_id (nodes (concat (map children cs))))"
proof (induction cs)
  case Nil
  then show ?case by simp
next
  case (Cons c cs)
  have d: "distinct (map node_id (nodes (children c)))"
    "node_id ` set (nodes (children c)) \<inter> node_id ` set (nodes cs) = {}"
    "distinct (map node_id (nodes cs))"
    using Cons.prems by (auto simp: subtree_Cons[of c])
  have l: "node_id ` set (nodes (concat (map children cs))) \<subseteq> node_id ` set (nodes cs)"
    using level1_subset[of cs] by blast
  have "node_id ` set (nodes (children c)) \<inter> node_id ` set (nodes (concat (map children cs))) = {}"
    using d(2) l by blast
  then show ?case using d Cons.IH by (simp add: nodes_append)
qed

lemma parent_of_top_level:
  assumes "well_formed doc" and "a \<in> set doc"
  shows "parent_of doc a = []"
proof -
  have "node_id a \<notin> node_id ` set (nodes (concat (map children doc)))"
    using top_level_apart[of doc] assms by (auto simp: well_formed_def)
  then have "\<forall>p\<in>set (nodes doc). node_id a \<notin> node_id ` set (children p)"
    using children_in_level1[of _ doc] by blast
  then show ?thesis by (auto simp: parent_of_def filter_empty_conv)
qed

lemma parent_of_level1:
  assumes "well_formed doc" and "a \<in> set (concat (map children doc))"
  shows "set (parent_of doc a) \<subseteq> set doc"
proof
  fix p assume "p \<in> set (parent_of doc a)"
  then have p: "p \<in> set (nodes doc)" and c: "node_id a \<in> node_id ` set (children p)"
    by (auto simp: parent_of_def)
  show "p \<in> set doc"
  proof (rule ccontr)
    assume "p \<notin> set doc"
    then have "p \<in> set (nodes (concat (map children doc)))"
      using p nodes_split[of doc] by blast
    then have "set (children p) \<subseteq> set (nodes (concat (map children (concat (map children doc)))))"
      by (rule children_in_level1)
    then have "node_id a \<in> node_id ` set (nodes (concat (map children (concat (map children doc)))))"
      using c by blast
    moreover have "node_id ` set (concat (map children doc))
        \<inter> node_id ` set (nodes (concat (map children (concat (map children doc))))) = {}"
      using assms(1) by (intro top_level_apart level1_distinct) (simp add: well_formed_def)
    ultimately show False using assms(2) by blast
  qed
qed

lemma ids_filter_neq:
  "node_id ` set (filter (\<lambda>m. node_id m \<noteq> k) xs) = node_id ` set xs - {k}"
  by auto

lemma ids_unique_nodes: "node_id ` set (unique_nodes ns) = node_id ` set ns"
proof (induction ns)
  case Nil
  then show ?case by simp
next
  case (Cons n ns)
  have "node_id ` set (unique_nodes (n # ns)) = insert (node_id n) (node_id ` set ns - {node_id n})"
    using Cons.IH by (simp add: ids_filter_neq del: set_filter)
  then show ?case by auto
qed

lemma ids_Parent: "node_id ` set (Parent doc sel) = parent_ids doc (node_id ` set sel)"
  unfolding Parent_def ids_unique_nodes parent_ids_def parent_of_def
  by auto

lemma parent_ids_Un: "parent_ids doc (A \<union> B) = parent_ids doc A \<union> parent_ids doc B"
  unfolding parent_ids_def by blast

lemma parent_ids_empty: "parent_ids doc {} = {}"
  unfolding parent_ids_def by blast

lemma shallow_no_grandparent:
  assumes "well_formed doc" and "fewer_than_two_ancestors doc a"
  shows "Parent doc (Parent doc [a]) = []"
proof -
  have "set (Parent doc [a]) \<subseteq> set doc"
    using assms parent_of_top_level[of doc a] parent_of_level1[of doc a]
      set_unique_nodes[of "parent_of doc a"]
    by (auto simp: Parent_def fewer_than_two_ancestors_def)
  then have e: "concat (map (parent_of doc) (Parent doc [a])) = []"
    using parent_of_top_level[OF assms(1)] by auto
  show ?thesis
    by (subst Parent_def) (simp only: e unique_nodes.simps)
qed

lemma shallow_selection_no_grandparents:
  assumes "well_formed doc" and "\<forall>a\<in>set sel. fewer_than_two_ancestors doc a"
  shows "parent_ids doc (parent_ids doc (node_id ` set sel)) = {}"
  using assms(2)
proof (induction sel)
  case Nil
  then show ?case by (simp add: parent_ids_empty)
next
  case (Cons a sel)
  have "parent_ids doc (parent_ids doc {node_id a}) = node_id ` set (Parent doc (Parent doc [a]))"
    by (simp add: ids_Parent)
  also have "\<dots> = {}"
    using shallow_no_grandparent[OF assms(1)] Cons.prems by simp
  finally have a: "parent_ids doc (parent_ids doc {node_id a}) = {}" .
  have "node_id ` set (a # sel) = {node_id a} \<union> node_id ` set sel" by simp
  then show ?case using a Cons by (simp only: parent_ids_Un) simp
qed

lemma prune_cong:
  "set ids = set ids' \<Longrightarrow> prune ids n = prune ids' n"
  "set ids = set ids' \<Longrightarrow> prune_forest ids cs = prune_forest ids' cs"
  by (induction n and cs rule: subtree_nodes.induct) auto

lemma prune_nil:
  "prune [] n = n"
  "prune_forest [] cs = cs"
  by (induction n and cs rule: subtree_nodes.induct) auto

lemma deep_anchors_only:
  assumes "well_formed doc"
  shows "node_id ` set (Parent doc (Parent doc sel)) =
         node_id ` set (Parent doc (Parent doc (filter (\<lambda>a. \<not> fewer_than_two_ancestors doc a) sel)))"
proof -
  let ?deep = "filter (\<lambda>a. \<not> fewer_than_two_ancestors doc a) sel"
  let ?shallow = "filter (\<lambda>a. fewer_than_two_ancestors doc a) sel"
  have "set sel = set ?deep \<union> set ?shallow" by auto
  then have "node_id ` set sel = node_id ` set ?deep \<union> node_id ` set ?shallow"
    by (metis image_Un)
  then have "parent_ids doc (parent_ids doc (node_id ` set sel)) =
      parent_ids doc (parent_ids doc (node_id ` set ?deep))
      \<union> parent_ids doc (parent_ids doc (node_id ` set ?shallow))"
    by (simp only: parent_ids_Un)
  moreover have "parent_ids doc (parent_ids doc (node_id ` set ?shallow)) = {}"
    by (rule shallow_selection_no_grandparents[OF assms]) simp
  ultimately show ?thesis by (simp add: ids_Parent)
qed

section \<open>The claims about the release-notes extractor\<close>

lemma exclude_deep_only:
  assumes "well_formed doc"
  shows "exclude sfx doc =
      Remove (Parent doc (Parent doc (filter (\<lambda>a. \<not> fewer_than_two_ancestors doc a)
                (Find (attr_suffix ''data-text'' sfx) doc)))) doc"
proof -
  have "node_id ` set (excluded sfx doc) =
      node_id ` set (Parent doc (Parent doc (filter (\<lambda>a. \<not> fewer_than_two_ancestors doc a)
                    (Find (attr_suffix ''data-text'' sfx) doc))))"
    unfolding excluded_def by (rule deep_anchors_only[OF assms])
  then have "set (map node_id (excluded sfx doc)) =
      set (map node_id (Parent doc (Parent doc (filter (\<lambda>a. \<not> fewer_than_two_ancestors doc a)
                    (Find (attr_suffix ''data-text'' sfx) doc)))))"
    by (simp only: set_map)
  then show ?thesis
    unfolding exclude_def Remove_def by (rule prune_cong(2))
qed

lemma exclude_shallow_only:
  assumes "well_formed doc"
    and "\<forall>a\<in>set (Find (attr_suffix ''data-text'' sfx) doc). fewer_than_two_ancestors doc a"
  shows "excluded sfx doc = []" and "exclude sfx doc = doc"
proof -
  have "parent_ids doc (parent_ids doc (node_id ` set (Find (attr_suffix ''data-text'' sfx) doc))) = {}"
    by (rule shallow_selection_no_grandparents[OF assms])
  then have "node_id ` set (excluded sfx doc) = {}"
    by (simp only: excluded_def ids_Parent)
  then show e: "excluded sfx doc = []" by simp
  show "exclude sfx doc = doc"
    by (simp only: exclude_def Remove_def e list.map prune_nil)
qed

text \<open>
  C9: after a successful fetch and parse, \<^verbatim>\<open>getGkeReleaseNotes\<close> returns a text and
  no error. In a well-formed document the exclusion rule removes exactly what it would
  remove if the anchors with fewer than two ancestors had not been found; when every anchor
  has fewer than two ancestors nothing is removed and the document is unchanged. When no
  release block is left the extracted text is empty.
\<close>

theorem extractor_never_fails:
  "(fetched = Inr out \<and> parse out = Inr doc
      \<longrightarrow> getGkeReleaseNotes fetched parse = Inr (extractReleaseContent doc))
   \<and> (well_formed doc
      \<longrightarrow> exclude sfx doc =
          Remove (Parent doc (Parent doc (filter (\<lambda>a. \<not> fewer_than_two_ancestors doc a)
                    (Find (attr_suffix ''data-text'' sfx) doc)))) doc)
   \<and> (well_formed doc
       \<and> (\<forall>a\<in>set (Find (attr_suffix ''data-text'' sfx) doc). fewer_than_two_ancestors doc a)
      \<longrightarrow> excluded sfx doc = [] \<and> exclude sfx doc = doc)
   \<and> (release_blocks doc = [] \<longrightarrow> extractReleaseContent doc = [])"
proof (intro conjI impI)
  assume "fetched = Inr out \<and> parse out = Inr doc"
  then show "getGkeReleaseNotes fetched parse = Inr (extractReleaseContent doc)"
    by (simp add: getGkeReleaseNotes_def)
next
  assume "well_formed doc"
  then show "exclude sfx doc =
          Remove (Parent doc (Parent doc (filter (\<lambda>a. \<not> fewer_than_two_ancestors doc a)
                    (Find (attr_suffix ''data-text'' sfx) doc)))) doc"
    by (rule exclude_deep_only)
next
  assume a: "well_formed doc
       \<and> (\<forall>a\<in>set (Find (attr_suffix ''data-text'' sfx) doc). fewer_than_two_ancestors doc a)"
  show "excluded sfx doc = []" using a exclude_shallow_only(1) by blast
  show "exclude sfx doc = doc" using a exclude_shallow_only(2) by blast
next
  assume "release_blocks doc = []"
  then show "extractReleaseContent doc = []"
    by (simp add: extractReleaseContent_def)
qed

theorem extractor_never_fails_witness:
  "well_formed shallow_doc
   \<and> Find (attr_suffix ''data-text'' ''Version updates'') shallow_doc = concat (map children shallow_doc)
   \<and> fewer_than_two_ancestors shallow_doc (hd (concat (map children shallow_doc)))
   \<and> excluded ''Version updates'' shallow_doc = []
   \<and> exclude ''Version updates'' shallow_doc = shallow_doc
   \<and> release_blocks shallow_doc = []
   \<and> extractReleaseContent shallow_doc = []
   \<and> getGkeReleaseNotes (Inr ''<html>'' :: unit + string) (\<lambda>bytes. Inr shallow_doc) = Inr []"
proof -
  have 1: "well_formed shallow_doc"
    by (simp add: well_formed_def shallow_doc_def)
  have 2: "Find (attr_suffix ''data-text'' ''Version updates'') shallow_doc = concat (map children shallow_doc)"
    by (simp add: Find_def attr_suffix_def HasSuffix_def shallow_doc_def)
  have 3: "\<forall>a\<in>set (Find (attr_suffix ''data-text'' ''Version updates'') shallow_doc).
      fewer_than_two_ancestors shallow_doc a"
    unfolding 2 by (simp add: fewer_than_two_ancestors_def)
  have 4: "fewer_than_two_ancestors shallow_doc (hd (concat (map children shallow_doc)))"
    by (simp add: fewer_than_two_ancestors_def shallow_doc_def)
  have 5: "release_blocks shallow_doc = []"
    by (simp add: html_defs shallow_doc_def)
  have 6: "(Inr ''<html>'' :: unit + string) = Inr ''<html>'' \<and> (\<lambda>bytes. Inr shallow_doc) ''<html>'' = (Inr shallow_doc :: unit + document)"
    by simp
  note c = extractor_never_fails[of "Inr ''<html>'' :: unit + string" "''<html>''" "\<lambda>bytes. Inr shallow_doc"
      shallow_doc "''Version updates''"]
  have 7: "excluded ''Version updates'' shallow_doc = [] \<and> exclude ''Version updates'' shallow_doc = shallow_doc"
    using c 1 3 by blast
  have 8: "extractReleaseContent shallow_doc = []" using c 5 by blast
  have 9: "getGkeReleaseNotes (Inr ''<html>'' :: unit + string) (\<lambda>bytes. Inr shallow_doc) = Inr []"
    using c 6 8 by simp
  show ?thesis using 1 2 4 5 7 8 9 by blast
qed

text \<open>
  C6, as stated: the extracted text contains no substring that was the text content of a
  deleted subtree. In \<^const>\<open>overlap_doc\<close> the first exclusion rule deletes
  \<^const>\<open>overlap_section\<close>, whose text content is \<^verbatim>\<open>Version updates\<close>, and the
  extracted text begins with these words, which the remaining release block holds itself.
\<close>

theorem deleted_text_substring_counterexample:
  "overlap_section \<in> set (excluded ''Version updates'' overlap_doc)
   \<and> Text overlap_section = ''Version updates''
   \<and> extractReleaseContent overlap_doc = ''Version updates are listed per channel.''
   \<and> sublist (Text overlap_section) (extractReleaseContent overlap_doc)"
proof -
  have 1: "overlap_section \<in> set (excluded ''Version updates'' overlap_doc)"
    by (simp add: html_defs overlap_doc_def overlap_section_def)
  have 2: "Text overlap_section = ''Version updates''"
    by (simp add: overlap_section_def)
  have 3: "extractReleaseContent overlap_doc = ''Version updates are listed per channel.''"
    by (simp add: html_defs overlap_doc_def overlap_section_def)
  have "prefix ''Version updates'' ''Version updates are listed per channel.''"
    by simp
  then have 4: "sublist (Text overlap_section) (extractReleaseContent overlap_doc)"
    unfolding 2 3 by (rule prefix_imp_sublist)
  show ?thesis using 1 2 3 4 by blast
qed

lemma disjoint_neq: "A \<inter> B = {} \<Longrightarrow> x \<in> A \<Longrightarrow> y \<in> B \<Longrightarrow> y \<noteq> x"
  by blast

lemma release_blocks_in_nodes:
  "r \<in> set (release_blocks doc) \<Longrightarrow> r \<in> set (nodes (after_exclusions doc))"
  by (simp add: release_blocks_def Find_def)

lemma extract_text_nodes:
  "extractReleaseContent doc = concat (map node_text (concat (map subtree (release_blocks doc))))"
proof -
  have "concat (map Text rs) = concat (map node_text (concat (map subtree rs)))" for rs
    by (induction rs) (simp_all add: Text_subtree(1))
  then show ?thesis by (simp add: extractReleaseContent_def)
qed

text \<open>
  C6, amended: in a well-formed document, the extracted text is the concatenation, in
  document order, of the data of the text nodes below the release blocks that are left
  after both exclusion rules, and no node of such a release block (the block itself
  included) is a node of a subtree that an exclusion rule deleted. So a node that matches
  the release-block selector and lies in the grandparent subtree of an exclusion anchor is
  not among the release blocks whose text is written.
\<close>

theorem deleted_subtree_not_emitted:
  assumes "well_formed doc"
    and "g \<in> set (excluded ''Version updates'' doc)
         \<or> g \<in> set (excluded ''Security updates'' (exclude ''Version updates'' doc))"
    and "n \<in> set (subtree g)"
  shows "extractReleaseContent doc
           = concat (map node_text (concat (map subtree (release_blocks doc))))
       \<and> (\<forall>r\<in>set (release_blocks doc). \<forall>m\<in>set (subtree r). node_id m \<noteq> node_id n)"
proof (intro conjI ballI)
  show "extractReleaseContent doc
           = concat (map node_text (concat (map subtree (release_blocks doc))))"
    by (rule extract_text_nodes)
next
  fix r m assume r: "r \<in> set (release_blocks doc)" and m: "m \<in> set (subtree r)"
  define d1 where "d1 = exclude ''Version updates'' doc"
  define d2 where "d2 = exclude ''Security updates'' d1"
  have "r \<in> set (nodes d2)"
    using release_blocks_in_nodes[OF r] by (simp only: after_exclusions_def d1_def d2_def)
  then have "set (subtree r) \<subseteq> set (nodes d2)" by (rule subtree_closed(2))
  then have "m \<in> set (nodes d2)" using m by (rule subsetD)
  then have m2: "node_id m \<in> node_id ` set (nodes d2)" by (rule imageI)
  have "node_id ` set (nodes d2) \<subseteq> node_id ` set (nodes d1)"
    unfolding d2_def by (rule exclude_ids_subset)
  then have m1: "node_id m \<in> node_id ` set (nodes d1)" using m2 by (rule subsetD)
  have n: "node_id n \<in> node_id ` set (subtree g)" using assms(3) by (rule imageI)
  have wf1: "well_formed d1" unfolding d1_def by (rule exclude_well_formed[OF assms(1)])
  from assms(2) show "node_id m \<noteq> node_id n"
  proof
    assume "g \<in> set (excluded ''Version updates'' doc)"
    then have "node_id ` set (subtree g) \<inter> node_id ` set (nodes d1) = {}"
      unfolding d1_def by (rule exclude_disjoint[OF assms(1)])
    then show ?thesis using n m1 by (rule disjoint_neq)
  next
    assume "g \<in> set (excluded ''Security updates'' (exclude ''Version updates'' doc))"
    then have "g \<in> set (excluded ''Security updates'' d1)" by (simp only: d1_def)
    then have "node_id ` set (subtree g) \<inter> node_id ` set (nodes d2) = {}"
      unfolding d2_def by (rule exclude_disjoint[OF wf1])
    then show ?thesis using n m2 by (rule disjoint_neq)
  qed
qed

theorem deleted_subtree_not_emitted_witness:
  "well_formed scenario_doc
   \<and> scenario_section \<in> set (excluded ''Version updates'' scenario_doc)
   \<and> has_class ''releases'' (ElementNode 9 ''div'' [(''class'', ''releases'')] [TextNode 10 ''dropped notes''])
   \<and> ElementNode 9 ''div'' [(''class'', ''releases'')] [TextNode 10 ''dropped notes'']
        \<in> set (subtree scenario_section)
   \<and> release_blocks scenario_doc
        = [ElementNode 3 ''div'' [(''class'', ''releases'')] [TextNode 4 ''kept notes'']]
   \<and> node_id (ElementNode 3 ''div'' [(''class'', ''releases'')] [TextNode 4 ''kept notes''])
        \<noteq> node_id (ElementNode 9 ''div'' [(''class'', ''releases'')] [TextNode 10 ''dropped notes''])
   \<and> extractReleaseContent scenario_doc = ''kept notes''"
proof -
  have 1: "well_formed scenario_doc"
    by (simp add: well_formed_def scenario_doc_def scenario_section_def)
  have 2: "scenario_section \<in> set (excluded ''Version updates'' scenario_doc)"
    by (simp add: html_defs scenario_doc_def scenario_section_def)
  have 3: "ElementNode 9 ''div'' [(''class'', ''releases'')] [TextNode 10 ''dropped notes'']
        \<in> set (subtree scenario_section)"
    by (simp add: scenario_section_def)
  have 4: "release_blocks scenario_doc
        = [ElementNode 3 ''div'' [(''class'', ''releases'')] [TextNode 4 ''kept notes'']]"
    by (simp add: html_defs scenario_doc_def scenario_section_def)
  have 5: "has_class ''releases'' (ElementNode 9 ''div'' [(''class'', ''releases'')] [TextNode 10 ''dropped notes''])"
    by (simp add: has_class_def is_space_def)
  note c = deleted_subtree_not_emitted[OF 1 disjI1[OF 2] 3]
  have 6: "extractReleaseContent scenario_doc = ''kept notes''"
    using c by (simp add: 4)
  have 7: "node_id (ElementNode 3 ''div'' [(''class'', ''releases'')] [TextNode 4 ''kept notes''])
        \<noteq> node_id (ElementNode 9 ''div'' [(''class'', ''releases'')] [TextNode 10 ''dropped notes''])"
    using c by (simp add: 4)
  show ?thesis using 1 2 3 4 5 6 7 by blast
qed

end
